theory Spec2Isabelle
  imports Main
begin

text \<open>
  A shallow embedding of the content-acquisition pipeline of the research assistant:
  the search client (\<open>utils/search.py\<close>), the page extractor and content normalizer
  (\<open>utils/extractor.py\<close>), the corpus-building loop of \<open>search_page\<close> (\<open>app.py\<close>) and
  the report store (\<open>utils/database.py\<close>). Third-party libraries (requests, trafilatura,
  BeautifulSoup, validators, SQLAlchemy) are parameters of the model: each call that can
  raise returns a sum, \<open>Inl\<close> carrying the exception.
\<close>

section \<open>Python strings\<close>

text \<open>
  A Python \<open>str\<close> is a sequence of Unicode code points, and \<open>len\<close> and slicing count
  code points. The model is a list of code points.
\<close>

type_synonym pystr = "nat list"

definition lit :: "string \<Rightarrow> pystr" where
  \<comment> \<open>an ASCII literal of the source as code points\<close>
  "lit s = map of_char s"

definition py_isspace :: "nat \<Rightarrow> bool" where
  \<comment> \<open>the code points Python treats as whitespace in \<open>str.split()\<close>, \<open>str.strip()\<close>
      and \<open>str.isspace()\<close>\<close>
  "py_isspace c =
     ((9 \<le> c \<and> c \<le> 13) \<or> (28 \<le> c \<and> c \<le> 32) \<or> c = 133 \<or> c = 160 \<or> c = 5760 \<or>
      (8192 \<le> c \<and> c \<le> 8202) \<or> c = 8232 \<or> c = 8233 \<or> c = 8239 \<or> c = 8287 \<or>
      c = 12288)"

function py_split :: "pystr \<Rightarrow> pystr list" where
  \<comment> \<open>\<open>s.split()\<close>: skip whitespace, take the run up to the next whitespace, repeat\<close>
  "py_split s =
     (case dropWhile py_isspace s of
        [] \<Rightarrow> []
      | c # t \<Rightarrow> takeWhile (\<lambda>x. \<not> py_isspace x) (c # t)
                 # py_split (dropWhile (\<lambda>x. \<not> py_isspace x) (c # t)))"
  by pat_completeness auto
termination
proof (relation "measure length", goal_cases)
  case 1
  show ?case by simp
next
  case (2 s c t)
  have "length (dropWhile (\<lambda>x. \<not> py_isspace x) (c # t)) < length (c # t)"
  proof -
    have "\<not> py_isspace c"
      using 2 hd_dropWhile [of py_isspace s] by (metis list.sel(1) list.distinct(1))
    then have "dropWhile (\<lambda>x. \<not> py_isspace x) (c # t) = dropWhile (\<lambda>x. \<not> py_isspace x) t"
      by simp
    then show ?thesis
      using length_dropWhile_le [of "\<lambda>x. \<not> py_isspace x" t] by simp
  qed
  moreover have "length (c # t) \<le> length s"
    using 2 length_dropWhile_le [of py_isspace s] by simp
  ultimately show ?case by simp
qed

declare py_split.simps [simp del]

fun py_join :: "pystr \<Rightarrow> pystr list \<Rightarrow> pystr" where
  \<comment> \<open>\<open>sep.join(ws)\<close>\<close>
  "py_join sep [] = []"
| "py_join sep [w] = w"
| "py_join sep (w # v # ws) = w @ sep @ py_join sep (v # ws)"

definition py_replace1 :: "nat \<Rightarrow> nat \<Rightarrow> pystr \<Rightarrow> pystr" where
  \<comment> \<open>\<open>s.replace(old, new)\<close> where \<open>old\<close> and \<open>new\<close> are one character each, as in
      both calls of \<open>clean_content\<close>\<close>
  "py_replace1 old new s = map (\<lambda>c. if c = old then new else c) s"

definition py_strip :: "pystr \<Rightarrow> pystr" where
  \<comment> \<open>\<open>s.strip()\<close>: whitespace removed at both ends\<close>
  "py_strip s = rev (dropWhile py_isspace (rev (dropWhile py_isspace s)))"

section \<open>The content normalizer (utils/extractor.py, ContentExtractor.clean_content)\<close>

definition clean_content :: "pystr \<Rightarrow> pystr" where
  "clean_content content =
     (if content = [] then []
      else
        let content1 = py_join [32] (py_split content);
            content2 = py_replace1 9 32 (py_replace1 10 32 content1)
        in take 50000 content2)"


text \<open>
  The normal form of \<open>' '.join(s.split())\<close>: no whitespace other than single spaces
  between words, none at either end. Used to state and prove what the normalizer
  preserves.
\<close>

fun collapsed :: "pystr \<Rightarrow> bool" where
  "collapsed [] = True"
| "collapsed [c] = (\<not> py_isspace c)"
| "collapsed (c # d # s) =
     (\<not> py_isspace c \<and>
      (if py_isspace d then d = 32 \<and> s \<noteq> [] \<and> collapsed s else collapsed (d # s)))"

definition words_ok :: "pystr list \<Rightarrow> bool" where
  "words_ok ws = (\<forall>w \<in> set ws. w \<noteq> [] \<and> (\<forall>x \<in> set w. \<not> py_isspace x))"

section \<open>Exceptions\<close>

datatype exn =
    ConnectionError
  | Timeout
  | HTTPError nat
  | OtherError
  \<comment> \<open>\<open>ConnectionError\<close>, \<open>Timeout\<close> and \<open>HTTPError\<close> are subclasses of
      \<open>requests.RequestException\<close>; \<open>OtherError\<close> is any \<open>Exception\<close> outside that
      hierarchy (a parse error, a \<open>TypeError\<close> on a body of another shape)\<close>

fun is_RequestException :: "exn \<Rightarrow> bool" where
  "is_RequestException ConnectionError = True"
| "is_RequestException Timeout = True"
| "is_RequestException (HTTPError _) = True"
| "is_RequestException OtherError = False"

section \<open>The search client (utils/search.py, GoogleSearch)\<close>

type_synonym item = "string \<rightharpoonup> pystr"
  \<comment> \<open>one element of the provider's \<open>items\<close> array: a dict with optional fields\<close>

definition dict_get :: "item \<Rightarrow> string \<Rightarrow> pystr \<Rightarrow> pystr" where
  \<comment> \<open>\<open>item.get(k, default)\<close>\<close>
  "dict_get d k dflt = (case d k of None \<Rightarrow> dflt | Some v \<Rightarrow> v)"

record search_result =
  title :: pystr
  url :: pystr
  snippet :: pystr

record params =
  p_key :: "pystr option"
  p_cx :: "pystr option"
  p_q :: pystr
  p_num :: int
  p_dateRestrict :: "pystr option"
  p_start :: "int option"
  \<comment> \<open>the \<open>params\<close> dict; \<open>dateRestrict\<close> and \<open>start\<close> are absent until assigned\<close>

record response =
  status_code :: nat
  json :: "exn + item list option"
  \<comment> \<open>\<open>json\<close>: what \<open>response.json()\<close> does: it raises, or returns the decoded object,
      of which the model keeps the \<open>items\<close> entry (\<open>None\<close> when the key is absent)\<close>

record config =
  api_key :: "pystr option"
  cx :: "pystr option"
  \<comment> \<open>\<open>self.api_key\<close>, \<open>self.cx\<close>: \<open>os.getenv\<close> gives \<open>None\<close> for an unset variable\<close>

type_synonym transport = "params \<Rightarrow> exn + response"
  \<comment> \<open>\<open>requests.get(self.endpoint, params=params)\<close>. One call of \<open>search\<close> requests every
      start offset at most once, so a function of the parameters covers every provider.\<close>

definition get_date_restrict :: "pystr \<Rightarrow> pystr option" where
  "get_date_restrict time_filter =
     (if time_filter = lit ''Past 24 hours'' then Some (lit ''d1'')
      else if time_filter = lit ''Past week'' then Some (lit ''w1'')
      else if time_filter = lit ''Past month'' then Some (lit ''m1'')
      else if time_filter = lit ''Past year'' then Some (lit ''y1'')
      else None)"

function py_range :: "int \<Rightarrow> int \<Rightarrow> int \<Rightarrow> int list" where
  \<comment> \<open>\<open>range(i, stop, step)\<close> for a positive step\<close>
  "py_range i stop step =
     (if 0 < step \<and> i < stop then i # py_range (i + step) stop step else [])"
  by pat_completeness auto
termination
  by (relation "measure (\<lambda>(i, stop, step). nat (stop - i))") auto

declare py_range.simps [simp del]

definition py_slice_to :: "'a list \<Rightarrow> int \<Rightarrow> 'a list" where
  \<comment> \<open>\<open>xs[:n]\<close>; a negative \<open>n\<close> counts from the end\<close>
  "py_slice_to xs n =
     (if 0 \<le> n then take (nat n) xs else take (length xs - nat (- n)) xs)"

definition raise_for_status :: "response \<Rightarrow> exn + unit" where
  "raise_for_status r =
     (if 400 \<le> status_code r \<and> status_code r < 600 then Inl (HTTPError (status_code r))
      else Inr ())"

definition fetch_page :: "transport \<Rightarrow> params \<Rightarrow> exn + item list option" where
  \<comment> \<open>\<open>requests.get\<close>, \<open>raise_for_status\<close>, \<open>response.json()\<close>: the first exception ends
      the sequence\<close>
  "fetch_page get p =
     (case get p of
        Inl e \<Rightarrow> Inl e
      | Inr r \<Rightarrow> (case raise_for_status r of Inl e \<Rightarrow> Inl e | Inr _ \<Rightarrow> json r))"

definition to_result :: "item \<Rightarrow> search_result" where
  "to_result it =
     \<lparr>title = dict_get it ''title'' [],
      url = dict_get it ''link'' [],
      snippet = dict_get it ''snippet'' []\<rparr>"

record search_state =
  results :: "search_result list"
  requests :: "params list"
  \<comment> \<open>\<open>results\<close>: the local variable; \<open>requests\<close>: the requests sent so far, in order\<close>

fun search_loop ::
  "transport \<Rightarrow> int \<Rightarrow> params \<Rightarrow> int list \<Rightarrow> search_state \<Rightarrow> exn option \<times> search_state"
where
  \<comment> \<open>the \<open>for start_index in range(...)\<close> loop; \<open>Some e\<close> when an exception left it\<close>
  "search_loop get max_results ps [] st = (None, st)"
| "search_loop get max_results ps (start_index # rest) st =
     (let ps1 = ps\<lparr>p_start := Some start_index\<rparr>;
          st1 = st\<lparr>requests := requests st @ [ps1]\<rparr>
      in case fetch_page get ps1 of
           Inl e \<Rightarrow> (Some e, st1)
         | Inr None \<Rightarrow> (None, st1)
         | Inr (Some items) \<Rightarrow>
             (let st2 = st1\<lparr>results := results st1 @ map to_result items\<rparr>
              in if max_results \<le> int (length (results st2))
                 then (None, st2\<lparr>results := py_slice_to (results st2) max_results\<rparr>)
                 else search_loop get max_results ps1 rest st2))"

definition search ::
  "config \<Rightarrow> transport \<Rightarrow> pystr \<Rightarrow> int \<Rightarrow> pystr \<Rightarrow> (exn + search_result list) \<times> params list"
where
  \<comment> \<open>the returned list, or the exception that reaches the caller; and the requests sent\<close>
  "search self get query max_results time_filter =
     (let ps = \<lparr>p_key = api_key self, p_cx = cx self, p_q = query,
                p_num = min max_results 10, p_dateRestrict = None, p_start = None\<rparr>;
          ps1 = (case get_date_restrict time_filter of
                   None \<Rightarrow> ps
                 | Some d \<Rightarrow> if d \<noteq> [] then ps\<lparr>p_dateRestrict := Some d\<rparr> else ps)
      in case search_loop get max_results ps1 (py_range 1 (max_results + 1) 10)
                \<lparr>results = [], requests = []\<rparr> of
           (None, st) \<Rightarrow> (Inr (results st), requests st)
         | (Some e, st) \<Rightarrow>
             if is_RequestException e then (Inr (results st), requests st)
             else (Inl e, requests st))"

section \<open>The page extractor (utils/extractor.py, ContentExtractor.extract)\<close>

text \<open>
  The network changes between calls, so the calls that reach it take the state of the
  world and return the next one. The model also records every network call it makes.
\<close>

datatype net_call = FetchUrl pystr | HttpGet pystr

record 'w net =
  world :: 'w
  calls :: "net_call list"

record page =
  page_status :: nat
  page_text :: pystr
  \<comment> \<open>the response of the fallback \<open>requests.get\<close>: \<open>status_code\<close> and \<open>text\<close>\<close>

record 'w libs =
  validators_url :: "pystr \<Rightarrow> bool"
  fetch_url :: "'w \<Rightarrow> pystr \<Rightarrow> (exn + pystr option) \<times> 'w"
  trafilatura_extract :: "pystr \<Rightarrow> exn + pystr option"
  requests_get :: "'w \<Rightarrow> pystr \<Rightarrow> (exn + page) \<times> 'w"
  soup_texts :: "pystr \<Rightarrow> exn + pystr list"
  \<comment> \<open>\<open>validators_url\<close>: the truth value of \<open>validators.url(url)\<close>;
      \<open>fetch_url\<close>: \<open>trafilatura.fetch_url\<close>, \<open>None\<close> when nothing was downloaded;
      \<open>trafilatura_extract\<close>: \<open>trafilatura.extract(downloaded, ...)\<close>;
      \<open>requests_get\<close>: \<open>requests.get(url, headers=..., timeout=10)\<close>;
      \<open>soup_texts\<close>: parsing with BeautifulSoup, removing script, style, nav, footer and
      header elements, and \<open>get_text()\<close> of every \<open>p\<close> and \<open>article\<close> element left\<close>

definition page_raise_for_status :: "page \<Rightarrow> exn + unit" where
  "page_raise_for_status r =
     (if 400 \<le> page_status r \<and> page_status r < 600 then Inl (HTTPError (page_status r))
      else Inr ())"

definition extract_fallback :: "'w libs \<Rightarrow> 'w net \<Rightarrow> pystr \<Rightarrow> (exn + pystr) \<times> 'w net" where
  \<comment> \<open>the BeautifulSoup half of the \<open>try\<close> block\<close>
  "extract_fallback lib n u =
     (case requests_get lib (world n) u of
        (r, w1) \<Rightarrow>
          (let n1 = \<lparr>world = w1, calls = calls n @ [HttpGet u]\<rparr>
           in case r of
                Inl e \<Rightarrow> (Inl e, n1)
              | Inr response \<Rightarrow>
                  (case page_raise_for_status response of
                     Inl e \<Rightarrow> (Inl e, n1)
                   | Inr _ \<Rightarrow>
                       (case soup_texts lib (page_text response) of
                          Inl e \<Rightarrow> (Inl e, n1)
                        | Inr ts \<Rightarrow> (Inr (py_strip (py_join [32] (map py_strip ts))), n1)))))"

definition extract_try :: "'w libs \<Rightarrow> 'w net \<Rightarrow> pystr \<Rightarrow> (exn + pystr) \<times> 'w net" where
  \<comment> \<open>the body of the \<open>try\<close> block: \<open>Inl e\<close> when it raises \<open>e\<close>\<close>
  "extract_try lib n u =
     (case fetch_url lib (world n) u of
        (d, w1) \<Rightarrow>
          (let n1 = \<lparr>world = w1, calls = calls n @ [FetchUrl u]\<rparr>
           in case d of
                Inl e \<Rightarrow> (Inl e, n1)
              | Inr None \<Rightarrow> extract_fallback lib n1 u
              | Inr (Some downloaded) \<Rightarrow>
                  if downloaded = [] then extract_fallback lib n1 u
                  else
                    (case trafilatura_extract lib downloaded of
                       Inl e \<Rightarrow> (Inl e, n1)
                     | Inr None \<Rightarrow> extract_fallback lib n1 u
                     | Inr (Some content) \<Rightarrow>
                         if content = [] then extract_fallback lib n1 u
                         else (Inr (py_strip content), n1))))"

definition extract_url :: "'w libs \<Rightarrow> 'w net \<Rightarrow> pystr \<Rightarrow> pystr \<times> 'w net" where
  \<comment> \<open>\<open>ContentExtractor.extract\<close>\<close>
  "extract_url lib n u =
     (if \<not> validators_url lib u then ([], n)
      else
        (case extract_try lib n u of
           (Inl e, n1) \<Rightarrow> ([], n1)
         | (Inr text, n1) \<Rightarrow> (text, n1)))"

section \<open>The corpus-building loop (app.py, search_page, lines 75 to 78)\<close>

fun collect_contents ::
  "'w libs \<Rightarrow> 'w net \<Rightarrow> pystr list \<Rightarrow> pystr list \<Rightarrow> pystr list \<times> 'w net"
where
  \<comment> \<open>\<open>for url in selected_urls: content = extractor.extract(url); contents.append(content)\<close>\<close>
  "collect_contents lib n [] contents = (contents, n)"
| "collect_contents lib n (u # selected_urls) contents =
     (case extract_url lib n u of
        (content, n1) \<Rightarrow> collect_contents lib n1 selected_urls (contents @ [content]))"

definition build_contents :: "'w libs \<Rightarrow> 'w net \<Rightarrow> pystr list \<Rightarrow> pystr list \<times> 'w net" where
  \<comment> \<open>\<open>contents = []\<close> followed by the loop: the list handed to \<open>generate_report\<close>\<close>
  "build_contents lib n selected_urls = collect_contents lib n selected_urls []"

section \<open>The report store (utils/database.py, Database)\<close>

subsection \<open>Serialization of the source list\<close>

definition hex_digit :: "nat \<Rightarrow> nat" where
  "hex_digit d = (if d < 10 then 48 + d else 87 + d)"

definition u_escape :: "nat \<Rightarrow> pystr" where
  \<comment> \<open>a backslash, \<open>u\<close> and four lower-case hexadecimal digits, for \<open>n < 0x10000\<close>\<close>
  "u_escape n =
     [92, 117, hex_digit (n div 4096 mod 16), hex_digit (n div 256 mod 16),
      hex_digit (n div 16 mod 16), hex_digit (n mod 16)]"

definition json_escape_char :: "nat \<Rightarrow> pystr" where
  \<comment> \<open>the replacement of one character by \<open>json.dumps\<close> with its default
      \<open>ensure_ascii=True\<close>: the short escapes, printable ASCII unchanged, the
      four-digit \<open>u\<close> escape for the rest, a surrogate pair of two such escapes above
      the Basic Multilingual Plane\<close>
  "json_escape_char c =
     (if c = 92 then [92, 92]
      else if c = 34 then [92, 34]
      else if c = 8 then [92, 98]
      else if c = 12 then [92, 102]
      else if c = 10 then [92, 110]
      else if c = 13 then [92, 114]
      else if c = 9 then [92, 116]
      else if 32 \<le> c \<and> c \<le> 126 then [c]
      else if c < 65536 then u_escape c
      else
        (let n = c - 65536
         in u_escape (55296 + n div 1024 mod 1024) @ u_escape (56320 + n mod 1024)))"

definition json_dumps_str :: "pystr \<Rightarrow> pystr" where
  "json_dumps_str s = [34] @ concat (map json_escape_char s) @ [34]"

definition json_dumps :: "pystr list \<Rightarrow> pystr" where
  \<comment> \<open>\<open>json.dumps(sources)\<close> for a list of \<open>str\<close>\<close>
  "json_dumps xs = [91] @ py_join [44, 32] (map json_dumps_str xs) @ [93]"

subsection \<open>Reading the source list back (app.py, knowledge_base_page, line 138)\<close>

text \<open>
  \<open>eval(report.sources)\<close> runs the stored text as a Python expression. The model covers
  the expressions \<open>json.dumps\<close> writes for a list of strings: a list display of
  double-quoted string literals whose escapes are those of a backslash, a double quote,
  backspace, form feed, line feed, carriage return, tab, and the four-digit \<open>u\<close> escape.
  In a Python string literal every four-digit \<open>u\<close> escape is one code point of its own:
  two surrogates are not combined. \<open>None\<close> stands for any text outside this fragment.
\<close>

definition hex_val :: "nat \<Rightarrow> nat option" where
  "hex_val c =
     (if 48 \<le> c \<and> c \<le> 57 then Some (c - 48)
      else if 97 \<le> c \<and> c \<le> 102 then Some (c - 87)
      else if 65 \<le> c \<and> c \<le> 70 then Some (c - 55)
      else None)"

definition hex4 :: "nat \<Rightarrow> nat \<Rightarrow> nat \<Rightarrow> nat \<Rightarrow> nat option" where
  "hex4 a b c d =
     (case (hex_val a, hex_val b, hex_val c, hex_val d) of
        (Some x, Some y, Some z, Some t) \<Rightarrow> Some (4096 * x + 256 * y + 16 * z + t)
      | _ \<Rightarrow> None)"

fun py_str_literal :: "pystr \<Rightarrow> (pystr \<times> pystr) option" where
  \<comment> \<open>the text after an opening double quote: the string denoted and the text after the
      closing quote\<close>
  "py_str_literal [] = None"
| "py_str_literal (c # cs) =
     (if c = 34 then Some ([], cs)
      else if c = 10 then None
      else if c \<noteq> 92 then map_option (\<lambda>(s, r). (c # s, r)) (py_str_literal cs)
      else
        (case cs of
           [] \<Rightarrow> None
         | e # r \<Rightarrow>
             if e = 92 then map_option (\<lambda>(s, t). (92 # s, t)) (py_str_literal r)
             else if e = 34 then map_option (\<lambda>(s, t). (34 # s, t)) (py_str_literal r)
             else if e = 98 then map_option (\<lambda>(s, t). (8 # s, t)) (py_str_literal r)
             else if e = 102 then map_option (\<lambda>(s, t). (12 # s, t)) (py_str_literal r)
             else if e = 110 then map_option (\<lambda>(s, t). (10 # s, t)) (py_str_literal r)
             else if e = 114 then map_option (\<lambda>(s, t). (13 # s, t)) (py_str_literal r)
             else if e = 116 then map_option (\<lambda>(s, t). (9 # s, t)) (py_str_literal r)
             else if e = 117 then
               (case r of
                  a # b # c' # d # r' \<Rightarrow>
                    (case hex4 a b c' d of
                       None \<Rightarrow> None
                     | Some n \<Rightarrow> map_option (\<lambda>(s, t). (n # s, t)) (py_str_literal r'))
                | _ \<Rightarrow> None)
             else None))"

fun py_list_items :: "nat \<Rightarrow> pystr \<Rightarrow> pystr list option" where
  \<comment> \<open>the text after \<open>[\<close> or after a comma: the remaining elements up to \<open>]\<close>. The first
      argument bounds the number of elements by the length of the text.\<close>
  "py_list_items 0 t = None"
| "py_list_items (Suc k) t =
     (case dropWhile (\<lambda>c. c = 32) t of
        [] \<Rightarrow> None
      | c # cs \<Rightarrow>
          if c = 93 then (if cs = [] then Some [] else None)
          else if c = 34 then
            (case py_str_literal cs of
               None \<Rightarrow> None
             | Some (s, r) \<Rightarrow>
                 (case dropWhile (\<lambda>c. c = 32) r of
                    [] \<Rightarrow> None
                  | d # ds \<Rightarrow>
                      if d = 93 then (if ds = [] then Some [s] else None)
                      else if d = 44 then map_option ((#) s) (py_list_items k ds)
                      else None))
          else None)"

definition py_eval_str_list :: "pystr \<Rightarrow> pystr list option" where
  "py_eval_str_list t =
     (case t of
        [] \<Rightarrow> None
      | c # cs \<Rightarrow> if c = 91 then py_list_items (length t) cs else None)"

subsection \<open>The session and save_report\<close>

record report =
  rep_query :: pystr
  rep_content :: pystr
  rep_sources :: pystr
  \<comment> \<open>a \<open>Report\<close> object before it is flushed: \<open>id\<close> and \<open>created_at\<close> not yet assigned\<close>

record row =
  row_id :: nat
  row_query :: pystr
  row_content :: pystr
  row_sources :: pystr
  row_created_at :: nat
  \<comment> \<open>a row of the table \<open>reports\<close>. The \<open>JSON\<close> column encodes the Python string on
      write and decodes it on read, so \<open>row_sources\<close> is the string that was assigned.\<close>

record db =
  committed :: "row list"
  pending :: "report list"
  \<comment> \<open>the table, and the objects added to the session since the last commit or rollback\<close>

datatype db_fault = NoFault | AddFails | CommitFails
  \<comment> \<open>which call of the session raises, if any\<close>

definition next_id :: "row list \<Rightarrow> nat" where
  "next_id rows = Suc (fold max (map row_id rows) 0)"

fun insert_rows :: "nat \<Rightarrow> row list \<Rightarrow> report list \<Rightarrow> row list" where
  "insert_rows now rows [] = rows"
| "insert_rows now rows (r # rs) =
     insert_rows now
       (rows @ [\<lparr>row_id = next_id rows, row_query = rep_query r, row_content = rep_content r,
                 row_sources = rep_sources r, row_created_at = now\<rparr>]) rs"

definition session_add :: "db_fault \<Rightarrow> db \<Rightarrow> report \<Rightarrow> exn + db" where
  "session_add fault d r =
     (if fault = AddFails then Inl OtherError else Inr (d\<lparr>pending := pending d @ [r]\<rparr>))"

definition session_commit :: "db_fault \<Rightarrow> nat \<Rightarrow> db \<Rightarrow> exn + db" where
  \<comment> \<open>the pending objects become rows in one transaction, or none does\<close>
  "session_commit fault now d =
     (if fault = CommitFails then Inl OtherError
      else Inr \<lparr>committed = insert_rows now (committed d) (pending d), pending = []\<rparr>)"

definition session_rollback :: "db \<Rightarrow> db" where
  "session_rollback d = d\<lparr>pending := []\<rparr>"

definition save_report ::
  "db_fault \<Rightarrow> nat \<Rightarrow> db \<Rightarrow> pystr \<Rightarrow> pystr \<Rightarrow> pystr list \<Rightarrow> bool \<times> db"
where
  "save_report fault now d query content sources =
     (let report = \<lparr>rep_query = query, rep_content = content,
                     rep_sources = json_dumps sources\<rparr>
      in case session_add fault d report of
           Inl e \<Rightarrow> (False, session_rollback d)
         | Inr d1 \<Rightarrow>
             (case session_commit fault now d1 of
                Inl e \<Rightarrow> (False, session_rollback d1)
              | Inr d2 \<Rightarrow> (True, d2)))"

definition read_sources :: "row \<Rightarrow> pystr list option" where
  \<comment> \<open>\<open>eval(report.sources)\<close>\<close>
  "read_sources r = py_eval_str_list (row_sources r)"

section \<open>Auxiliary predicates and concrete inputs\<close>

definition from_page :: "transport \<Rightarrow> search_result \<Rightarrow> bool" where
  \<comment> \<open>the result is the conversion of an item of a page the provider serves\<close>
  "from_page get r =
     (\<exists>p items it. fetch_page get p = Inr (Some items) \<and> it \<in> set items \<and> r = to_result it)"

subsection \<open>Providers used as concrete inputs\<close>

definition self0 :: config where
  "self0 = \<lparr>api_key = Some (lit ''k''), cx = Some (lit ''c'')\<rparr>"

definition item_a :: item where
  "item_a = [''title'' \<mapsto> lit ''A'', ''link'' \<mapsto> lit ''http://a.example/'']"

definition item_no_link :: item where
  "item_no_link = [''title'' \<mapsto> lit ''T'']"

definition provider_ten :: transport where
  \<comment> \<open>every page has ten items\<close>
  "provider_ten p = Inr \<lparr>status_code = 200, json = Inr (Some (replicate 10 item_a))\<rparr>"

definition provider_no_link :: transport where
  \<comment> \<open>one item, which has no \<open>link\<close> field\<close>
  "provider_no_link p = Inr \<lparr>status_code = 200, json = Inr (Some [item_no_link])\<rparr>"

definition provider_503 :: transport where
  \<comment> \<open>the first page has two items, every later request is answered with status 503\<close>
  "provider_503 p =
     (if p_start p = Some 1
      then Inr \<lparr>status_code = 200, json = Inr (Some [item_a, item_no_link])\<rparr>
      else Inr \<lparr>status_code = 503, json = Inr None\<rparr>)"

subsection \<open>Libraries and stores used as concrete inputs\<close>

definition net0 :: "nat net" where
  "net0 = \<lparr>world = 0, calls = []\<rparr>"

definition lib_scenario :: "nat libs" where
  \<comment> \<open>the end-to-end scenario of the specification: \<open>trafilatura\<close> downloads nothing,
      \<open>https://a.example/ok\<close> serves one paragraph, every other request times out\<close>
  "lib_scenario =
     \<lparr>validators_url = (\<lambda>u. take 8 u = lit ''https://''),
      fetch_url = (\<lambda>w u. (Inr None, Suc w)),
      trafilatura_extract = (\<lambda>d. Inr None),
      requests_get = (\<lambda>w u.
        if u = lit ''https://a.example/ok''
        then (Inr \<lparr>page_status = 200, page_text = lit ''<p>Hello world</p>''\<rparr>, Suc w)
        else (Inl Timeout, Suc w)),
      soup_texts = (\<lambda>t. if t = lit ''<p>Hello world</p>'' then Inr [lit ''Hello world'']
                          else Inr [])\<rparr>"

definition lib_raw :: "pystr \<Rightarrow> nat libs" where
  \<comment> \<open>\<open>trafilatura\<close> extracts the given text from every page\<close>
  "lib_raw text =
     \<lparr>validators_url = (\<lambda>u. take 8 u = lit ''https://''),
      fetch_url = (\<lambda>w u. (Inr (Some (lit ''<html>'')), Suc w)),
      trafilatura_extract = (\<lambda>d. Inr (Some text)),
      requests_get = (\<lambda>w u. (Inl Timeout, Suc w)),
      soup_texts = (\<lambda>t. Inr [])\<rparr>"

definition db0 :: db where
  "db0 = \<lparr>committed = [], pending = []\<rparr>"

section \<open>Properties of the content normalizer\<close>

lemma py_isspace_32 [simp]: "py_isspace 32"
  by (simp add: py_isspace_def)

lemma py_isspace_9_10 [simp]: "py_isspace 9" "py_isspace 10"
  by (simp_all add: py_isspace_def)

lemma py_split_Nil [simp]: "py_split [] = []"
  by (simp add: py_split.simps)

lemma py_split_space [simp]: "py_isspace c \<Longrightarrow> py_split (c # s) = py_split s"
  by (simp add: py_split.simps [of "c # s"] py_split.simps [of s])

lemma py_split_word:
  "\<not> py_isspace c \<Longrightarrow>
   py_split (c # s) = (c # takeWhile (\<lambda>x. \<not> py_isspace x) s)
                      # py_split (dropWhile (\<lambda>x. \<not> py_isspace x) s)"
  by (simp add: py_split.simps [of "c # s"])

lemma py_split_word2:
  assumes "\<not> py_isspace c" "\<not> py_isspace d"
  shows "py_split (c # d # s) = (c # hd (py_split (d # s))) # tl (py_split (d # s))"
  using assms by (simp add: py_split_word)

lemma py_join_Cons_Cons: "ws \<noteq> [] \<Longrightarrow> py_join sep (w # ws) = w @ sep @ py_join sep ws"
  by (cases ws) simp_all

lemma py_join_push: "py_join sep ((c # w) # ws) = c # py_join sep (w # ws)"
  by (cases ws) simp_all

lemma collapsed_hd: "collapsed (c # s) \<Longrightarrow> \<not> py_isspace c"
  by (cases s) simp_all

lemma py_split_collapsed_nonempty: "collapsed s \<Longrightarrow> s \<noteq> [] \<Longrightarrow> py_split s \<noteq> []"
  by (cases s) (auto simp: py_split_word dest: collapsed_hd)

lemma py_join_split_collapsed: "collapsed s \<Longrightarrow> py_join [32] (py_split s) = s"
proof (induction s rule: collapsed.induct)
  case 1
  show ?case by simp
next
  case (2 c)
  then show ?case by (simp add: py_split_word)
next
  case (3 c d s)
  show ?case
  proof (cases "py_isspace d")
    case True
    with 3 have c: "\<not> py_isspace c" and d: "d = 32" and s: "s \<noteq> []" "collapsed s"
      by simp_all
    have "py_split (c # d # s) = [c] # py_split s"
      using c True by (simp add: py_split_word)
    moreover have "py_split s \<noteq> []"
      using s by (simp add: py_split_collapsed_nonempty)
    ultimately show ?thesis
      using 3 True s d by (simp add: py_join_Cons_Cons)
  next
    case False
    with 3 have c: "\<not> py_isspace c" and ds: "collapsed (d # s)"
      by simp_all
    have ne: "py_split (d # s) \<noteq> []"
      using ds by (simp add: py_split_collapsed_nonempty)
    have "py_join [32] (py_split (c # d # s))
          = c # py_join [32] (hd (py_split (d # s)) # tl (py_split (d # s)))"
      by (simp only: py_split_word2 [OF c False] py_join_push)
    also have "\<dots> = c # py_join [32] (py_split (d # s))"
      using ne by simp
    finally show ?thesis
      using 3 False ds by simp
  qed
qed


lemma collapsed_only_space: "collapsed s \<Longrightarrow> c \<in> set s \<Longrightarrow> py_isspace c \<Longrightarrow> c = 32"
proof (induction s rule: collapsed.induct)
  case 1
  then show ?case by simp
next
  case (2 x)
  then show ?case by simp
next
  case (3 x d s)
  show ?case
  proof (cases "py_isspace d")
    case True
    with 3 show ?thesis by auto
  next
    case False
    with 3 show ?thesis by auto
  qed
qed

lemma collapsed_last: "collapsed s \<Longrightarrow> s \<noteq> [] \<Longrightarrow> \<not> py_isspace (last s)"
proof (induction s rule: collapsed.induct)
  case 1
  then show ?case by simp
next
  case (2 x)
  then show ?case by simp
next
  case (3 x d s)
  show ?case
  proof (cases "py_isspace d")
    case True
    with 3 show ?thesis by simp
  next
    case False
    with 3 show ?thesis by simp
  qed
qed

lemma collapsed_word_space:
  "\<not> py_isspace c \<Longrightarrow> \<forall>x \<in> set w. \<not> py_isspace x \<Longrightarrow> collapsed s \<Longrightarrow> s \<noteq> [] \<Longrightarrow>
   collapsed (c # w @ 32 # s)"
  by (induction w arbitrary: c) simp_all

lemma collapsed_word: "\<not> py_isspace c \<Longrightarrow> \<forall>x \<in> set w. \<not> py_isspace x \<Longrightarrow> collapsed (c # w)"
  by (induction w arbitrary: c) auto

lemma words_ok_Cons:
  "words_ok (w # ws) = (w \<noteq> [] \<and> (\<forall>x \<in> set w. \<not> py_isspace x) \<and> words_ok ws)"
  by (simp add: words_ok_def)

lemma words_ok_py_split: "words_ok (py_split s)"
proof (induction s rule: length_induct)
  case (1 s)
  show ?case
  proof (cases s)
    case Nil
    then show ?thesis by (simp add: words_ok_def)
  next
    case (Cons c t)
    show ?thesis
    proof (cases "py_isspace c")
      case True
      then show ?thesis using 1 Cons by simp
    next
      case False
      have "length (dropWhile (\<lambda>x. \<not> py_isspace x) t) < length s"
        using Cons length_dropWhile_le [of "\<lambda>x. \<not> py_isspace x" t] by simp
      then have rest: "words_ok (py_split (dropWhile (\<lambda>x. \<not> py_isspace x) t))"
        using 1 by blast
      have first: "\<forall>x \<in> set (c # takeWhile (\<lambda>x. \<not> py_isspace x) t). \<not> py_isspace x"
        using False set_takeWhileD [of _ "\<lambda>x. \<not> py_isspace x" t] by auto
      have eq: "py_split s = (c # takeWhile (\<lambda>x. \<not> py_isspace x) t)
                          # py_split (dropWhile (\<lambda>x. \<not> py_isspace x) t)"
        unfolding Cons by (rule py_split_word [OF False])
      show ?thesis
        unfolding eq words_ok_Cons using rest first by blast
    qed
  qed
qed

lemma py_join_nonempty: "words_ok ws \<Longrightarrow> ws \<noteq> [] \<Longrightarrow> py_join [32] ws \<noteq> []"
proof (cases ws)
  case Nil
  assume "ws \<noteq> []"
  with Nil show ?thesis by simp
next
  case (Cons w vs)
  assume "words_ok ws"
  with Cons show ?thesis by (cases vs) (auto simp: words_ok_def)
qed

lemma collapsed_py_join: "words_ok ws \<Longrightarrow> collapsed (py_join [32] ws)"
proof (induction ws rule: induct_list012)
  case 1
  show ?case by simp
next
  case (2 w)
  then show ?case
    by (cases w) (auto simp: words_ok_def intro: collapsed_word)
next
  case (3 w v ws)
  then have rest: "collapsed (py_join [32] (v # ws))" "py_join [32] (v # ws) \<noteq> []"
    using py_join_nonempty [of "v # ws"] by (auto simp: words_ok_def)
  from 3 obtain c w' where w: "w = c # w'" "\<not> py_isspace c" "\<forall>x \<in> set w'. \<not> py_isspace x"
    by (cases w) (auto simp: words_ok_def)
  show ?case
    using collapsed_word_space [OF w(2) w(3) rest] w(1) by simp
qed

lemma collapsed_take:
  "collapsed s \<Longrightarrow>
   collapsed (take n s) \<or> (\<exists>t. take n s = t @ [32] \<and> collapsed t)"
proof (induction s arbitrary: n rule: collapsed.induct)
  case 1
  show ?case by simp
next
  case (2 c)
  then show ?case by (cases n) simp_all
next
  case (3 c d s)
  then have c: "\<not> py_isspace c" by simp
  show ?case
  proof (cases n)
    case 0
    then show ?thesis by simp
  next
    case (Suc k)
    show ?thesis
    proof (cases k)
      case 0
      with Suc c show ?thesis by simp
    next
      case (Suc m)
      have tk: "take n (c # d # s) = c # d # take m s"
        using Suc \<open>n = Suc k\<close> by simp
      show ?thesis
      proof (cases "py_isspace d")
        case True
        with 3 have d: "d = 32" and s: "s \<noteq> []" "collapsed s" by simp_all
        from s obtain e s' where e: "s = e # s'" "\<not> py_isspace e"
          by (cases s) (auto dest: collapsed_hd)
        show ?thesis
        proof (cases m)
          case 0
          have "take n (c # d # s) = [c] @ [32]" "collapsed [c]"
            using tk 0 d c by simp_all
          then show ?thesis by blast
        next
          case (Suc j)
          then have ne: "take m s = e # take j s'" using e by simp
          from "3.IH"(1) [OF True, of m] s
          consider "collapsed (take m s)" | t where "take m s = t @ [32]" "collapsed t"
            by auto
          then show ?thesis
          proof cases
            case 1
            then have "collapsed (c # d # take m s)"
              using c d True ne by simp
            then show ?thesis unfolding tk by blast
          next
            case (2 t)
            then have "t \<noteq> []" using ne e(2) py_isspace_32 by auto
            then have "collapsed (c # d # t)"
              using c d True 2 by simp
            moreover have "take n (c # d # s) = (c # d # t) @ [32]"
              using tk 2 by simp
            ultimately show ?thesis by blast
          qed
        qed
      next
        case False
        with 3 have ds: "collapsed (d # s)" by simp
        from "3.IH"(2) [OF False, of k] ds Suc
        consider "collapsed (d # take m s)" | t where "d # take m s = t @ [32]" "collapsed t"
          by auto
        then show ?thesis
        proof cases
          case 1
          then have "collapsed (c # d # take m s)" using c False by simp
          then show ?thesis unfolding tk by blast
        next
          case (2 t)
          then obtain t' where t: "t = d # t'"
            using False py_isspace_32 by (cases t) auto
          then have "collapsed (c # t)" using c False 2 by simp
          moreover have "take n (c # d # s) = (c # t) @ [32]"
            using tk 2 by simp
          ultimately show ?thesis by blast
        qed
      qed
    qed
  qed
qed

lemma py_split_snoc_space: "collapsed s \<Longrightarrow> py_split (s @ [32]) = py_split s"
proof (induction s rule: collapsed.induct)
  case 1
  show ?case by simp
next
  case (2 c)
  then show ?case by (simp add: py_split_word)
next
  case (3 c d s)
  then have c: "\<not> py_isspace c" by simp
  show ?case
  proof (cases "py_isspace d")
    case True
    with 3 show ?thesis using c by (simp add: py_split_word)
  next
    case False
    with 3 have "py_split ((d # s) @ [32]) = py_split (d # s)" by simp
    then show ?thesis
      using py_split_word2 [OF c False, of s] py_split_word2 [OF c False, of "s @ [32]"]
      by simp
  qed
qed

lemma py_replace1_collapsed:
  "collapsed s \<Longrightarrow> py_isspace a \<Longrightarrow> a \<noteq> 32 \<Longrightarrow> py_replace1 a b s = s"
  unfolding py_replace1_def
  by (rule map_idI) (auto dest: collapsed_only_space)

lemma clean_content_eq: "clean_content x = take 50000 (py_join [32] (py_split x))"
proof -
  have "collapsed (py_join [32] (py_split x))"
    by (simp add: collapsed_py_join words_ok_py_split)
  then have "py_replace1 9 32 (py_replace1 10 32 (py_join [32] (py_split x)))
             = py_join [32] (py_split x)"
    by (simp add: py_replace1_collapsed)
  then show ?thesis
    by (simp add: clean_content_def Let_def)
qed

lemma clean_content_collapsed:
  "collapsed t \<Longrightarrow> length t \<le> 50000 \<Longrightarrow> clean_content t = t"
  by (simp add: clean_content_eq py_join_split_collapsed)

lemma clean_content_cases:
  "collapsed (clean_content x) \<or> (\<exists>t. clean_content x = t @ [32] \<and> collapsed t)"
  unfolding clean_content_eq
  by (rule collapsed_take) (simp add: collapsed_py_join words_ok_py_split)

lemma length_clean_content: "length (clean_content x) \<le> 50000"
  by (simp add: clean_content_eq)

text \<open>
  Claim C4, as amended. Normalizing twice gives the same text as normalizing once exactly
  when the normalized text is empty or does not end with a space, and in particular
  whenever the whitespace-collapsed input has at most 50,000 characters, so that nothing
  is cut off.
\<close>

theorem clean_content_idempotent_iff:
  "(clean_content (clean_content x) = clean_content x
      \<longleftrightarrow> clean_content x = [] \<or> last (clean_content x) \<noteq> 32)
   \<and> (length (py_join [32] (py_split x)) \<le> 50000
      \<longrightarrow> clean_content (clean_content x) = clean_content x)"
proof (intro conjI impI)
  show "clean_content (clean_content x) = clean_content x
        \<longleftrightarrow> clean_content x = [] \<or> last (clean_content x) \<noteq> 32"
    using clean_content_cases [of x]
  proof
    assume col: "collapsed (clean_content x)"
    then have "clean_content (clean_content x) = clean_content x"
      by (simp add: clean_content_collapsed length_clean_content)
    moreover have "clean_content x = [] \<or> last (clean_content x) \<noteq> 32"
      using collapsed_last [OF col] py_isspace_32 by auto
    ultimately show ?thesis by simp
  next
    assume "\<exists>t. clean_content x = t @ [32] \<and> collapsed t"
    then obtain t where t: "clean_content x = t @ [32]" "collapsed t" by blast
    have "length t \<le> 50000"
      using length_clean_content [of x] t(1) by simp
    then have "clean_content (t @ [32]) = t"
      using t(2) by (simp add: clean_content_eq py_split_snoc_space py_join_split_collapsed)
    then show ?thesis using t(1) by simp
  qed
next
  assume le: "length (py_join [32] (py_split x)) \<le> 50000"
  have "collapsed (py_join [32] (py_split x))"
    by (simp add: collapsed_py_join words_ok_py_split)
  moreover have "clean_content x = py_join [32] (py_split x)"
    using le by (simp add: clean_content_eq)
  ultimately show "clean_content (clean_content x) = clean_content x"
    using le by (simp add: clean_content_collapsed)
qed


lemma py_split_one_word:
  "\<not> py_isspace c \<Longrightarrow> \<forall>x \<in> set w. \<not> py_isspace x \<Longrightarrow> py_split (c # w) = [c # w]"
proof -
  assume c: "\<not> py_isspace c" and w: "\<forall>x \<in> set w. \<not> py_isspace x"
  have dt: "dropWhile (\<lambda>x. \<not> py_isspace x) w = []" "takeWhile (\<lambda>x. \<not> py_isspace x) w = w"
    using w by simp_all
  show ?thesis
    unfolding py_split_word [OF c] dt by simp
qed

lemma py_split_word_then:
  "\<not> py_isspace c \<Longrightarrow> \<forall>x \<in> set w. \<not> py_isspace x \<Longrightarrow> py_isspace d \<Longrightarrow>
   py_split (c # w @ d # rest) = (c # w) # py_split rest"
  by (simp add: py_split_word)

lemma not_space_97: "\<not> py_isspace 97"
  by (simp add: py_isspace_def)

lemma not_space_98: "\<not> py_isspace 98"
  by (simp add: py_isspace_def)

lemma clean_content_long:
  "clean_content (replicate 49999 97 @ [32, 98]) = replicate 49999 97 @ [32]"
proof -
  have r: "replicate 49999 (97::nat) = 97 # replicate 49998 97"
    by (simp add: replicate_Suc [symmetric] del: replicate_Suc)
  have "py_split (replicate 49999 97 @ [32, 98]) = [replicate 49999 97, [98]]"
    unfolding r using py_split_word_then [of 97 "replicate 49998 97" 32 "[98]"]
    by (simp add: not_space_97 py_split_one_word not_space_98)
  then show ?thesis
    by (simp add: clean_content_eq)
qed

lemma clean_content_trailing:
  "clean_content (replicate 49999 97 @ [32]) = replicate 49999 97"
proof -
  have r: "replicate 49999 (97::nat) = 97 # replicate 49998 97"
    by (simp add: replicate_Suc [symmetric] del: replicate_Suc)
  have "py_split (replicate 49999 97 @ [32]) = [replicate 49999 97]"
    unfolding r using py_split_word_then [of 97 "replicate 49998 97" 32 "[]"]
    by (simp add: not_space_97)
  then show ?thesis
    by (simp add: clean_content_eq)
qed

text \<open>
  Claim C4, as stated, fails: a word of 49,999 characters followed by a space and another
  word is cut right after the space, and the second pass removes that space.
\<close>

theorem clean_content_not_idempotent:
  "clean_content (clean_content (replicate 49999 97 @ [32, 98]))
   \<noteq> clean_content (replicate 49999 97 @ [32, 98])"
  by (simp add: clean_content_long clean_content_trailing)

text \<open>Claim C4, as amended, at an input with a leading space and a line break.\<close>

theorem clean_content_idempotent_iff_witness:
  "length (py_join [32] (py_split [32, 97, 10, 32, 98])) \<le> 50000
   \<and> clean_content [32, 97, 10, 32, 98] = [97, 32, 98]
   \<and> last (clean_content [32, 97, 10, 32, 98]) \<noteq> 32
   \<and> clean_content (clean_content [32, 97, 10, 32, 98]) = clean_content [32, 97, 10, 32, 98]"
proof -
  have s: "py_split [32, 97, 10, 32, 98] = [[97], [98]]"
    by (simp add: py_split_word py_isspace_def)
  have c: "clean_content [32, 97, 10, 32, 98] = [97, 32, 98]"
    by (simp add: clean_content_eq s)
  show ?thesis
    using clean_content_idempotent_iff [of "[32, 97, 10, 32, 98]"] s c by simp
qed

section \<open>Properties of the search client\<close>

lemma py_range_25: "py_range 1 26 10 = [1, 11, 21]"
  by (simp add: py_range.simps)

lemma search_loop_start_irrelevant:
  "search_loop get mr (ps\<lparr>p_start := x\<rparr>) starts st = search_loop get mr ps starts st"
  by (cases starts) simp_all

lemma length_py_slice_to:
  "0 \<le> n \<Longrightarrow> n \<le> int (length xs) \<Longrightarrow> int (length (py_slice_to xs n)) = n"
  by (simp add: py_slice_to_def)

lemma set_py_slice_to: "set (py_slice_to xs n) \<subseteq> set xs"
  by (simp add: py_slice_to_def set_take_subset)

lemma search_loop_bound:
  "0 \<le> mr \<Longrightarrow> int (length (results st)) \<le> mr \<Longrightarrow>
   int (length (results (snd (search_loop get mr ps starts st)))) \<le> mr"
proof (induction starts arbitrary: ps st)
  case Nil
  then show ?case by simp
next
  case (Cons s starts)
  show ?case
  proof (cases "fetch_page get (ps\<lparr>p_start := Some s\<rparr>)")
    case (Inl e)
    then show ?thesis using Cons.prems by simp
  next
    case (Inr data)
    show ?thesis
    proof (cases data)
      case None
      then show ?thesis using Inr Cons.prems by simp
    next
      case (Some items)
      let ?st2 = "st\<lparr>requests := requests st @ [ps\<lparr>p_start := Some s\<rparr>],
                       results := results st @ map to_result items\<rparr>"
      show ?thesis
      proof (cases "mr \<le> int (length (results st) + length items)")
        case True
        then show ?thesis
          using Inr Some Cons.prems by (simp add: length_py_slice_to)
      next
        case False
        then have "int (length (results ?st2)) \<le> mr" by simp
        from Cons.IH [OF Cons.prems(1) this, of "ps\<lparr>p_start := Some s\<rparr>"]
        show ?thesis using Inr Some False by (simp add: Let_def)
      qed
    qed
  qed
qed

lemma search_loop_from_page:
  "(\<forall>r \<in> set (results st). from_page get r) \<Longrightarrow>
   (\<forall>r \<in> set (results (snd (search_loop get mr ps starts st))). from_page get r)"
proof (induction starts arbitrary: ps st)
  case Nil
  then show ?case by simp
next
  case (Cons s starts)
  show ?case
  proof (cases "fetch_page get (ps\<lparr>p_start := Some s\<rparr>)")
    case (Inl e)
    then show ?thesis using Cons.prems by simp
  next
    case (Inr data)
    show ?thesis
    proof (cases data)
      case None
      then show ?thesis using Inr Cons.prems by simp
    next
      case (Some items)
      let ?st2 = "st\<lparr>requests := requests st @ [ps\<lparr>p_start := Some s\<rparr>],
                       results := results st @ map to_result items\<rparr>"
      have new: "\<forall>r \<in> set (results ?st2). from_page get r"
        using Cons.prems Inr Some by (auto simp: from_page_def)
      show ?thesis
      proof (cases "mr \<le> int (length (results st) + length items)")
        case True
        then show ?thesis
          using Inr Some new set_py_slice_to [of "results st @ map to_result items" mr]
          by (auto simp: subset_iff)
      next
        case False
        from Cons.IH [OF new, of "ps\<lparr>p_start := Some s\<rparr>"]
        show ?thesis using Inr Some False by (simp add: Let_def)
      qed
    qed
  qed
qed

lemma search_loop_raised:
  "fst (search_loop get mr ps starts st) = Some e \<Longrightarrow> \<exists>p. fetch_page get p = Inl e"
proof (induction starts arbitrary: ps st)
  case Nil
  then show ?case by simp
next
  case (Cons s starts)
  then show ?case
    by (auto simp: Let_def split: sum.splits option.splits if_splits)
qed

lemma search_loop_pages:
  "list_all2 (\<lambda>s page. \<forall>p. p_start p = Some s \<longrightarrow> fetch_page get p = Inr (Some page)) pre pages \<Longrightarrow>
   int (length (results st) + length (concat pages)) < mr \<Longrightarrow>
   search_loop get mr ps (pre @ rest) st =
   search_loop get mr ps rest
     (st\<lparr>results := results st @ map to_result (concat pages),
         requests := requests st @ map (\<lambda>s. ps\<lparr>p_start := Some s\<rparr>) pre\<rparr>)"
proof (induction pre pages arbitrary: ps st rule: list_all2_induct)
  case Nil
  then show ?case by simp
next
  case (Cons s pre page pages)
  let ?ps1 = "ps\<lparr>p_start := Some s\<rparr>"
  let ?st2 = "st\<lparr>requests := requests st @ [?ps1],
                   results := results st @ map to_result page\<rparr>"
  have f: "fetch_page get ?ps1 = Inr (Some page)"
    using Cons.hyps(1) by simp
  have small: "\<not> mr \<le> int (length (results st) + length page)"
    using Cons.prems by simp
  have "int (length (results ?st2) + length (concat pages)) < mr"
    using Cons.prems by simp
  from Cons.IH [OF this, of ?ps1]
  have "search_loop get mr ?ps1 (pre @ rest) ?st2 =
        search_loop get mr ps rest
          (?st2\<lparr>results := results ?st2 @ map to_result (concat pages),
                requests := requests ?st2 @ map (\<lambda>s. ps\<lparr>p_start := Some s\<rparr>) pre\<rparr>)"
    by (simp add: search_loop_start_irrelevant)
  then show ?case
    using f small by simp
qed

lemma search_as_loop:
  "\<exists>ps. search self get q mr tf =
     (case search_loop get mr ps (py_range 1 (mr + 1) 10) \<lparr>results = [], requests = []\<rparr> of
        (None, st) \<Rightarrow> (Inr (results st), requests st)
      | (Some e, st) \<Rightarrow>
          if is_RequestException e then (Inr (results st), requests st)
          else (Inl e, requests st))"
  unfolding search_def Let_def by (rule exI, rule refl)

lemma search_bound:
  assumes "0 \<le> mr" and "fst (search self get q mr tf) = Inr rs"
  shows "int (length rs) \<le> mr"
proof -
  obtain ps where s: "search self get q mr tf =
     (case search_loop get mr ps (py_range 1 (mr + 1) 10) \<lparr>results = [], requests = []\<rparr> of
        (None, st) \<Rightarrow> (Inr (results st), requests st)
      | (Some e, st) \<Rightarrow>
          if is_RequestException e then (Inr (results st), requests st)
          else (Inl e, requests st))"
    using search_as_loop by blast
  let ?r = "search_loop get mr ps (py_range 1 (mr + 1) 10) \<lparr>results = [], requests = []\<rparr>"
  have "int (length (results (snd ?r))) \<le> mr"
    using assms(1) by (intro search_loop_bound) simp_all
  moreover have "rs = results (snd ?r)"
    using assms(2) unfolding s by (cases ?r) (auto split: option.splits if_splits)
  ultimately show ?thesis by simp
qed

lemma search_from_page:
  assumes "fst (search self get q mr tf) = Inr rs" and "r \<in> set rs"
  shows "from_page get r"
proof -
  obtain ps where s: "search self get q mr tf =
     (case search_loop get mr ps (py_range 1 (mr + 1) 10) \<lparr>results = [], requests = []\<rparr> of
        (None, st) \<Rightarrow> (Inr (results st), requests st)
      | (Some e, st) \<Rightarrow>
          if is_RequestException e then (Inr (results st), requests st)
          else (Inl e, requests st))"
    using search_as_loop by blast
  let ?r = "search_loop get mr ps (py_range 1 (mr + 1) 10) \<lparr>results = [], requests = []\<rparr>"
  have "\<forall>r \<in> set (results (snd ?r)). from_page get r"
    by (intro search_loop_from_page) simp
  moreover have "rs = results (snd ?r)"
    using assms(1) unfolding s by (cases ?r) (auto split: option.splits if_splits)
  ultimately show ?thesis using assms(2) by simp
qed

lemma search_no_raise:
  assumes "\<forall>p e. fetch_page get p = Inl e \<longrightarrow> is_RequestException e"
  shows "\<exists>rs. fst (search self get q mr tf) = Inr rs"
proof -
  obtain ps where s: "search self get q mr tf =
     (case search_loop get mr ps (py_range 1 (mr + 1) 10) \<lparr>results = [], requests = []\<rparr> of
        (None, st) \<Rightarrow> (Inr (results st), requests st)
      | (Some e, st) \<Rightarrow>
          if is_RequestException e then (Inr (results st), requests st)
          else (Inl e, requests st))"
    using search_as_loop by blast
  let ?r = "search_loop get mr ps (py_range 1 (mr + 1) 10) \<lparr>results = [], requests = []\<rparr>"
  show ?thesis
  proof (cases "fst ?r")
    case None
    then show ?thesis unfolding s by (cases ?r) simp
  next
    case (Some e)
    then have "is_RequestException e"
      using search_loop_raised assms by blast
    then show ?thesis using Some unfolding s by (cases ?r) simp
  qed
qed

lemma search_full:
  assumes range: "py_range 1 (mr + 1) 10 = pre @ s # rest"
    and pages: "list_all2 (\<lambda>s page. \<forall>p. p_start p = Some s \<longrightarrow> fetch_page get p = Inr (Some page))
                  pre pages"
    and lastp: "\<forall>p. p_start p = Some s \<longrightarrow> fetch_page get p = Inr (Some lastp)"
    and less: "int (length (concat pages)) < mr"
    and enough: "mr \<le> int (length (concat pages) + length lastp)"
  shows "fst (search self get q mr tf) = Inr (take (nat mr) (map to_result (concat pages @ lastp)))"
    and "map p_start (snd (search self get q mr tf)) = map Some (pre @ [s])"
proof -
  obtain ps where sr: "search self get q mr tf =
     (case search_loop get mr ps (py_range 1 (mr + 1) 10) \<lparr>results = [], requests = []\<rparr> of
        (None, st) \<Rightarrow> (Inr (results st), requests st)
      | (Some e, st) \<Rightarrow>
          if is_RequestException e then (Inr (results st), requests st)
          else (Inl e, requests st))"
    using search_as_loop by blast
  let ?st0 = "\<lparr>results = [], requests = []\<rparr>"
  let ?st1 = "\<lparr>results = map to_result (concat pages),
               requests = map (\<lambda>s. ps\<lparr>p_start := Some s\<rparr>) pre\<rparr>"
  have "search_loop get mr ps (pre @ s # rest) ?st0 = search_loop get mr ps (s # rest) ?st1"
    using search_loop_pages [OF pages, of ?st0 mr ps "s # rest"] less by simp
  moreover have "fetch_page get (ps\<lparr>p_start := Some s\<rparr>) = Inr (Some lastp)"
    using lastp by simp
  moreover have "0 \<le> mr" using less by linarith
  ultimately have loop: "search_loop get mr ps (py_range 1 (mr + 1) 10) ?st0 =
      (None, \<lparr>results = take (nat mr) (map to_result (concat pages @ lastp)),
               requests = map (\<lambda>s. ps\<lparr>p_start := Some s\<rparr>) (pre @ [s])\<rparr>)"
    using enough range by (simp add: py_slice_to_def)
  show "fst (search self get q mr tf) = Inr (take (nat mr) (map to_result (concat pages @ lastp)))"
    unfolding sr loop by simp
  show "map p_start (snd (search self get q mr tf)) = map Some (pre @ [s])"
    unfolding sr loop by (simp add: comp_def)
qed

lemma search_failed_page:
  assumes range: "py_range 1 (mr + 1) 10 = pre @ s # rest"
    and pages: "list_all2 (\<lambda>s page. \<forall>p. p_start p = Some s \<longrightarrow> fetch_page get p = Inr (Some page))
                  pre pages"
    and fails: "\<forall>p. p_start p = Some s \<longrightarrow> fetch_page get p = Inl e"
    and req: "is_RequestException e"
    and less: "int (length (concat pages)) < mr"
  shows "fst (search self get q mr tf) = Inr (map to_result (concat pages))"
    and "map p_start (snd (search self get q mr tf)) = map Some (pre @ [s])"
proof -
  obtain ps where sr: "search self get q mr tf =
     (case search_loop get mr ps (py_range 1 (mr + 1) 10) \<lparr>results = [], requests = []\<rparr> of
        (None, st) \<Rightarrow> (Inr (results st), requests st)
      | (Some e, st) \<Rightarrow>
          if is_RequestException e then (Inr (results st), requests st)
          else (Inl e, requests st))"
    using search_as_loop by blast
  let ?st0 = "\<lparr>results = [], requests = []\<rparr>"
  let ?st1 = "\<lparr>results = map to_result (concat pages),
               requests = map (\<lambda>s. ps\<lparr>p_start := Some s\<rparr>) pre\<rparr>"
  have "search_loop get mr ps (pre @ s # rest) ?st0 = search_loop get mr ps (s # rest) ?st1"
    using search_loop_pages [OF pages, of ?st0 mr ps "s # rest"] less by simp
  moreover have "fetch_page get (ps\<lparr>p_start := Some s\<rparr>) = Inl e"
    using fails by simp
  ultimately have loop: "search_loop get mr ps (py_range 1 (mr + 1) 10) ?st0 =
      (Some e, \<lparr>results = map to_result (concat pages),
                 requests = map (\<lambda>s. ps\<lparr>p_start := Some s\<rparr>) (pre @ [s])\<rparr>)"
    using range by simp
  show "fst (search self get q mr tf) = Inr (map to_result (concat pages))"
    unfolding sr loop using req by simp
  show "map p_start (snd (search self get q mr tf)) = map Some (pre @ [s])"
    unfolding sr loop using req by (simp add: comp_def)
qed

lemma py_range_first: "0 < mr \<Longrightarrow> py_range 1 (mr + 1) 10 = [] @ 1 # py_range 11 (mr + 1) 10"
  by (simp add: py_range.simps [of 1])

lemma url_to_result: "url (to_result it) = (case it ''link'' of None \<Rightarrow> [] | Some l \<Rightarrow> l)"
  by (simp add: to_result_def dict_get_def)

text \<open>
  Claim C2, as stated, fails: an item without a \<open>link\<close> field is returned, with the
  empty string as its url.
\<close>

theorem search_keeps_item_without_link:
  "fst (search self0 provider_no_link (lit ''q'') 1 (lit ''Any''))
   = Inr [\<lparr>title = lit ''T'', url = [], snippet = []\<rparr>]"
proof -
  have "\<forall>p. p_start p = Some 1 \<longrightarrow> fetch_page provider_no_link p = Inr (Some [item_no_link])"
    by (simp add: fetch_page_def provider_no_link_def raise_for_status_def)
  from search_full(1) [OF py_range_first [of 1] _ this, of "[]" self0 "lit ''q''" "lit ''Any''"]
  show ?thesis
    by (simp add: to_result_def dict_get_def item_no_link_def)
qed

text \<open>
  Claim C2, as amended. Every result that \<open>search\<close> returns is the conversion of one
  provider item, and its url is that item's \<open>link\<close> field, or the empty string when
  the item has none. Items are not filtered: when the first page holds at least
  \<open>max_results\<close> items, the results are the conversions of its first \<open>max_results\<close>
  items, in order, whether or not they have a link.
\<close>

theorem search_results_are_items:
  "(\<forall>rs. fst (search self get q mr tf) = Inr rs \<longrightarrow>
      (\<forall>r \<in> set rs. \<exists>p items it.
          fetch_page get p = Inr (Some items) \<and> it \<in> set items \<and> r = to_result it \<and>
          url r = (case it ''link'' of None \<Rightarrow> [] | Some l \<Rightarrow> l)))
   \<and> ((\<forall>p. p_start p = Some 1 \<longrightarrow> fetch_page get p = Inr (Some items1)) \<and>
       0 < mr \<and> mr \<le> int (length items1) \<longrightarrow>
       fst (search self get q mr tf) = Inr (map to_result (take (nat mr) items1)))"
proof (intro conjI allI impI ballI)
  fix rs r
  assume "fst (search self get q mr tf) = Inr rs" and "r \<in> set rs"
  then have "from_page get r" by (rule search_from_page)
  then show "\<exists>p items it.
          fetch_page get p = Inr (Some items) \<and> it \<in> set items \<and> r = to_result it \<and>
          url r = (case it ''link'' of None \<Rightarrow> [] | Some l \<Rightarrow> l)"
    unfolding from_page_def using url_to_result by blast
next
  assume a: "(\<forall>p. p_start p = Some 1 \<longrightarrow> fetch_page get p = Inr (Some items1)) \<and>
       0 < mr \<and> mr \<le> int (length items1)"
  then have "py_range 1 (mr + 1) 10 = [] @ 1 # py_range 11 (mr + 1) 10"
    by (simp add: py_range_first)
  from search_full(1) [OF this, of get "[]" items1 self q tf] a
  show "fst (search self get q mr tf) = Inr (map to_result (take (nat mr) items1))"
    by (simp add: take_map)
qed

text \<open>Claim C2, as amended, at a provider whose only item has no link.\<close>

theorem search_results_are_items_witness:
  "(\<exists>p items it. fetch_page provider_no_link p = Inr (Some items) \<and> it \<in> set items \<and>
       \<lparr>title = lit ''T'', url = [], snippet = []\<rparr> = to_result it \<and> it ''link'' = None)
   \<and> fst (search self0 provider_no_link (lit ''q'') 1 (lit ''Any''))
       = Inr [\<lparr>title = lit ''T'', url = [], snippet = []\<rparr>]"
proof -
  have f: "\<forall>p. p_start p = Some 1 \<longrightarrow> fetch_page provider_no_link p = Inr (Some [item_no_link])"
    by (simp add: fetch_page_def provider_no_link_def raise_for_status_def)
  have t: "to_result item_no_link = \<lparr>title = lit ''T'', url = [], snippet = []\<rparr>"
    by (simp add: to_result_def dict_get_def item_no_link_def)
  note inst = search_results_are_items [of self0 provider_no_link "lit ''q''" 1 "lit ''Any''"
      "[item_no_link]"]
  have s: "fst (search self0 provider_no_link (lit ''q'') 1 (lit ''Any''))
       = Inr [\<lparr>title = lit ''T'', url = [], snippet = []\<rparr>]"
    using inst f t by simp
  have "\<exists>p items it. fetch_page provider_no_link p = Inr (Some items) \<and> it \<in> set items \<and>
       \<lparr>title = lit ''T'', url = [], snippet = []\<rparr> = to_result it \<and> it ''link'' = None"
    using f t by (intro exI [of _ "\<lparr>p_key = None, p_cx = None, p_q = [], p_num = 1,
        p_dateRestrict = None, p_start = Some 1\<rparr>"] exI [of _ "[item_no_link]"]
        exI [of _ item_no_link]) (simp add: item_no_link_def)
  with s show ?thesis by simp
qed

lemma search_nonpos:
  "mr \<le> 0 \<Longrightarrow> search self get q mr tf = (Inr [], [])"
proof -
  assume "mr \<le> 0"
  then have "py_range 1 (mr + 1) 10 = []"
    by (simp add: py_range.simps)
  then show ?thesis
    by (simp add: search_def Let_def)
qed

text \<open>
  Claim C6. With \<open>max_results = 25\<close>, when the pages at offsets 1, 11 and 21 together
  hold at least 25 items and the first two fewer, \<open>search\<close> sends exactly the three
  requests with start offsets 1, 11 and 21 and returns the first 25 items. Whatever the
  provider does, a returned list has at most \<open>max_results\<close> items, for the
  \<open>max_results\<close> of the contract, which are not negative; for a negative
  \<open>max_results\<close> no request is sent and the empty list is returned.
\<close>

theorem search_pagination:
  "((\<forall>p. p_start p = Some 1 \<longrightarrow> fetch_page get p = Inr (Some page1)) \<and>
    (\<forall>p. p_start p = Some 11 \<longrightarrow> fetch_page get p = Inr (Some page2)) \<and>
    (\<forall>p. p_start p = Some 21 \<longrightarrow> fetch_page get p = Inr (Some page3)) \<and>
    length page1 + length page2 < 25 \<and> 25 \<le> length page1 + length page2 + length page3 \<longrightarrow>
      map p_start (snd (search self get q 25 tf)) = [Some 1, Some 11, Some 21] \<and>
      fst (search self get q 25 tf) = Inr (take 25 (map to_result (page1 @ page2 @ page3))) \<and>
      length (take 25 (map to_result (page1 @ page2 @ page3))) = 25)
   \<and> (0 \<le> max_results \<longrightarrow>
        (\<forall>rs. fst (search self get q max_results tf) = Inr rs \<longrightarrow>
           int (length rs) \<le> max_results))
   \<and> (max_results < 0 \<longrightarrow> search self get q max_results tf = (Inr [], []))"
proof (intro conjI allI impI)
  assume a: "(\<forall>p. p_start p = Some 1 \<longrightarrow> fetch_page get p = Inr (Some page1)) \<and>
    (\<forall>p. p_start p = Some 11 \<longrightarrow> fetch_page get p = Inr (Some page2)) \<and>
    (\<forall>p. p_start p = Some 21 \<longrightarrow> fetch_page get p = Inr (Some page3)) \<and>
    length page1 + length page2 < 25 \<and> 25 \<le> length page1 + length page2 + length page3"
  have r: "py_range 1 (25 + 1) 10 = [1, 11] @ 21 # []"
    by (simp add: py_range_25)
  have p: "list_all2 (\<lambda>s page. \<forall>p. p_start p = Some s \<longrightarrow> fetch_page get p = Inr (Some page))
             [1, 11] [page1, page2]"
    using a by simp
  note full = search_full [OF r p, of page3 self q tf]
  show "map p_start (snd (search self get q 25 tf)) = [Some 1, Some 11, Some 21]"
    using full(2) a by simp
  show "fst (search self get q 25 tf) = Inr (take 25 (map to_result (page1 @ page2 @ page3)))"
    using full(1) a by simp
  have "25 \<le> length (map to_result (page1 @ page2 @ page3))"
    using a by simp
  then show "length (take 25 (map to_result (page1 @ page2 @ page3))) = 25"
    by (simp only: length_take min_absorb2)
next
  fix rs
  assume "0 \<le> max_results" and "fst (search self get q max_results tf) = Inr rs"
  then show "int (length rs) \<le> max_results" by (rule search_bound)
next
  assume "max_results < 0"
  then show "search self get q max_results tf = (Inr [], [])"
    by (simp add: search_nonpos)
qed

text \<open>Claim C6 at a provider that serves ten items on every page.\<close>

theorem search_pagination_witness:
  "map p_start (snd (search self0 provider_ten (lit ''q'') 25 (lit ''Any'')))
     = [Some 1, Some 11, Some 21]
   \<and> fst (search self0 provider_ten (lit ''q'') 25 (lit ''Any''))
     = Inr (replicate 25 (to_result item_a))
   \<and> int (length (replicate 25 (to_result item_a))) \<le> 25"
proof -
  have f: "\<forall>p. fetch_page provider_ten p = Inr (Some (replicate 10 item_a))"
    by (simp add: fetch_page_def provider_ten_def raise_for_status_def)
  have t: "take 25 (map to_result (replicate 10 item_a @ replicate 10 item_a @ replicate 10 item_a))
           = replicate 25 (to_result item_a)"
    by (simp add: replicate_add [symmetric])
  note inst = search_pagination [of provider_ten "replicate 10 item_a" "replicate 10 item_a"
      "replicate 10 item_a" self0 "lit ''q''" "lit ''Any''" 25]
  have s: "fst (search self0 provider_ten (lit ''q'') 25 (lit ''Any''))
     = Inr (replicate 25 (to_result item_a))"
    using inst f t by simp
  moreover have "map p_start (snd (search self0 provider_ten (lit ''q'') 25 (lit ''Any'')))
     = [Some 1, Some 11, Some 21]"
    using inst f by simp
  moreover have "int (length (replicate 25 (to_result item_a))) \<le> 25"
    using inst s by simp
  ultimately show ?thesis by simp
qed

text \<open>
  Claim C7. When every exception raised while a page is fetched is a
  \<open>RequestException\<close>, as transport errors and HTTP status errors are, \<open>search\<close>
  returns a list and raises nothing. When the pages before a request were fetched
  without reaching \<open>max_results\<close> and that request fails with a \<open>RequestException\<close>,
  no further request is sent and the results of the earlier pages are returned.
\<close>

theorem search_never_raises:
  "((\<forall>p e. fetch_page get p = Inl e \<longrightarrow> is_RequestException e) \<longrightarrow>
      (\<exists>rs. fst (search self get q mr tf) = Inr rs))
   \<and> (py_range 1 (mr + 1) 10 = pre @ s # rest \<and>
       list_all2 (\<lambda>s page. \<forall>p. p_start p = Some s \<longrightarrow> fetch_page get p = Inr (Some page))
         pre pages \<and>
       int (length (concat pages)) < mr \<and>
       (\<forall>p. p_start p = Some s \<longrightarrow> fetch_page get p = Inl e) \<and> is_RequestException e \<longrightarrow>
         fst (search self get q mr tf) = Inr (map to_result (concat pages)) \<and>
         map p_start (snd (search self get q mr tf)) = map Some (pre @ [s]))"
proof (intro conjI impI)
  assume "\<forall>p e. fetch_page get p = Inl e \<longrightarrow> is_RequestException e"
  then show "\<exists>rs. fst (search self get q mr tf) = Inr rs" by (rule search_no_raise)
next
  assume a: "py_range 1 (mr + 1) 10 = pre @ s # rest \<and>
       list_all2 (\<lambda>s page. \<forall>p. p_start p = Some s \<longrightarrow> fetch_page get p = Inr (Some page))
         pre pages \<and>
       int (length (concat pages)) < mr \<and>
       (\<forall>p. p_start p = Some s \<longrightarrow> fetch_page get p = Inl e) \<and> is_RequestException e"
  then show "fst (search self get q mr tf) = Inr (map to_result (concat pages))"
    using search_failed_page(1) [of mr pre s rest get pages e] by blast
  from a show "map p_start (snd (search self get q mr tf)) = map Some (pre @ [s])"
    using search_failed_page(2) [of mr pre s rest get pages e] by blast
qed

text \<open>Claim C7 at a provider that answers the second request with status 503.\<close>

theorem search_never_raises_witness:
  "fetch_page provider_503 \<lparr>p_key = None, p_cx = None, p_q = [], p_num = 10,
       p_dateRestrict = None, p_start = Some 11\<rparr> = Inl (HTTPError 503)
   \<and> fst (search self0 provider_503 (lit ''q'') 25 (lit ''Any''))
       = Inr [to_result item_a, to_result item_no_link]
   \<and> map p_start (snd (search self0 provider_503 (lit ''q'') 25 (lit ''Any'')))
       = [Some 1, Some 11]"
proof -
  have f1: "\<forall>p. p_start p = Some 1 \<longrightarrow>
      fetch_page provider_503 p = Inr (Some [item_a, item_no_link])"
    by (simp add: fetch_page_def provider_503_def raise_for_status_def)
  have f2: "\<forall>p. p_start p = Some 11 \<longrightarrow> fetch_page provider_503 p = Inl (HTTPError 503)"
    by (simp add: fetch_page_def provider_503_def raise_for_status_def)
  have all: "\<forall>p e. fetch_page provider_503 p = Inl e \<longrightarrow> is_RequestException e"
    by (auto simp: fetch_page_def provider_503_def raise_for_status_def split: if_splits)
  have r: "py_range 1 (25 + 1) 10 = [1] @ 11 # [21]"
    by (simp add: py_range_25)
  note inst = search_never_raises [of provider_503 self0 "lit ''q''" 25 "lit ''Any''" "[1]" 11
      "[21]" "[[item_a, item_no_link]]" "HTTPError 503"]
  have "fst (search self0 provider_503 (lit ''q'') 25 (lit ''Any''))
       = Inr [to_result item_a, to_result item_no_link]"
    using inst f1 f2 r by simp
  moreover have "map p_start (snd (search self0 provider_503 (lit ''q'') 25 (lit ''Any'')))
       = [Some 1, Some 11]"
    using inst f1 f2 r by simp
  ultimately show ?thesis using f2 by simp
qed

section \<open>Properties of the page extractor\<close>

lemma extract_invalid: "\<not> validators_url lib u \<Longrightarrow> extract_url lib n u = ([], n)"
  by (simp add: extract_url_def)

lemma extract_raised: "extract_try lib n u = (Inl e, n1) \<Longrightarrow> extract_url lib n u = ([], if validators_url lib u then n1 else n)"
  by (simp add: extract_url_def)

lemma extract_fetch_raised:
  "validators_url lib u \<Longrightarrow> fetch_url lib (world n) u = (Inl e, w1) \<Longrightarrow>
   extract_url lib n u = ([], \<lparr>world = w1, calls = calls n @ [FetchUrl u]\<rparr>)"
  by (simp add: extract_url_def extract_try_def)

lemma extract_get_raised:
  "validators_url lib u \<Longrightarrow> fetch_url lib (world n) u = (Inr None, w1) \<Longrightarrow>
   requests_get lib w1 u = (Inl e, w2) \<Longrightarrow>
   extract_url lib n u = ([], \<lparr>world = w2, calls = calls n @ [FetchUrl u, HttpGet u]\<rparr>)"
  by (simp add: extract_url_def extract_try_def extract_fallback_def)

text \<open>
  Claim C8. \<open>extract\<close> returns a string in every case. For a URL the validator rejects,
  the string is empty and neither the world nor the list of network calls changes.
  When the \<open>try\<close> block raises, at whatever stage, the result is the empty string; so it
  is when the download raises, and when the download yields nothing and the fallback
  request raises.
\<close>

theorem extract_total:
  "(\<exists>text n1. extract_url lib n u = (text, n1))
   \<and> (\<not> validators_url lib u \<longrightarrow> extract_url lib n u = ([], n))
   \<and> (\<forall>e n1. extract_try lib n u = (Inl e, n1) \<longrightarrow> fst (extract_url lib n u) = [])
   \<and> (\<forall>e w1. validators_url lib u \<and> fetch_url lib (world n) u = (Inl e, w1) \<longrightarrow>
         extract_url lib n u = ([], \<lparr>world = w1, calls = calls n @ [FetchUrl u]\<rparr>))
   \<and> (\<forall>e w1 w2. validators_url lib u \<and> fetch_url lib (world n) u = (Inr None, w1) \<and>
         requests_get lib w1 u = (Inl e, w2) \<longrightarrow>
         extract_url lib n u = ([], \<lparr>world = w2, calls = calls n @ [FetchUrl u, HttpGet u]\<rparr>))"
proof (intro conjI allI impI)
  show "\<exists>text n1. extract_url lib n u = (text, n1)"
    by (cases "extract_url lib n u") simp
  show "extract_url lib n u = ([], n)" if "\<not> validators_url lib u"
    using that by (rule extract_invalid)
  show "fst (extract_url lib n u) = []" if "extract_try lib n u = (Inl e, n1)" for e n1
    using extract_raised [OF that] by simp
  show "extract_url lib n u = ([], \<lparr>world = w1, calls = calls n @ [FetchUrl u]\<rparr>)"
    if "validators_url lib u \<and> fetch_url lib (world n) u = (Inl e, w1)" for e w1
    using extract_fetch_raised [of lib u n e w1] that by simp
  show "extract_url lib n u = ([], \<lparr>world = w2, calls = calls n @ [FetchUrl u, HttpGet u]\<rparr>)"
    if "validators_url lib u \<and> fetch_url lib (world n) u = (Inr None, w1) \<and>
         requests_get lib w1 u = (Inl e, w2)" for e w1 w2
    using extract_get_raised [of lib u n w1 e w2] that by simp
qed

text \<open>Claim C8 at a rejected string and at a URL whose two requests fail.\<close>

theorem extract_total_witness:
  "extract_url lib_scenario net0 (lit ''not a url'') = ([], net0)
   \<and> extract_try lib_scenario net0 (lit ''https://b.example/dead'')
       = (Inl Timeout, \<lparr>world = 2, calls = [FetchUrl (lit ''https://b.example/dead''),
                                            HttpGet (lit ''https://b.example/dead'')]\<rparr>)
   \<and> extract_url lib_scenario net0 (lit ''https://b.example/dead'')
       = ([], \<lparr>world = 2, calls = [FetchUrl (lit ''https://b.example/dead''),
                                  HttpGet (lit ''https://b.example/dead'')]\<rparr>)"
proof -
  note inst1 = extract_total [of lib_scenario net0 "lit ''not a url''"]
  note inst2 = extract_total [of lib_scenario net0 "lit ''https://b.example/dead''"]
  have v1: "\<not> validators_url lib_scenario (lit ''not a url'')"
    by (simp add: lib_scenario_def lit_def)
  have v2: "validators_url lib_scenario (lit ''https://b.example/dead'')"
    by (simp add: lib_scenario_def lit_def)
  have f: "fetch_url lib_scenario (world net0) (lit ''https://b.example/dead'') = (Inr None, 1)"
    by (simp add: lib_scenario_def net0_def)
  have g: "requests_get lib_scenario 1 (lit ''https://b.example/dead'') = (Inl Timeout, 2)"
    by (simp add: lib_scenario_def lit_def)
  have t: "extract_try lib_scenario net0 (lit ''https://b.example/dead'')
       = (Inl Timeout, \<lparr>world = 2, calls = [FetchUrl (lit ''https://b.example/dead''),
                                            HttpGet (lit ''https://b.example/dead'')]\<rparr>)"
    using f g by (simp add: extract_try_def extract_fallback_def net0_def)
  have "extract_url lib_scenario net0 (lit ''not a url'') = ([], net0)"
    using inst1 v1 by blast
  moreover have "extract_url lib_scenario net0 (lit ''https://b.example/dead'')
       = ([], \<lparr>world = 2, calls = [FetchUrl (lit ''https://b.example/dead''),
                                  HttpGet (lit ''https://b.example/dead'')]\<rparr>)"
    using inst2 v2 f g by (simp add: net0_def)
  ultimately show ?thesis using t by simp
qed

section \<open>Properties of the corpus-building loop\<close>

lemma collect_contents_acc:
  "collect_contents lib n urls acc =
     (acc @ fst (collect_contents lib n urls []), snd (collect_contents lib n urls []))"
proof (induction urls arbitrary: n acc)
  case Nil
  show ?case by simp
next
  case (Cons u urls)
  obtain c n1 where e: "extract_url lib n u = (c, n1)"
    by (cases "extract_url lib n u")
  show ?case
    using Cons [of n1 "acc @ [c]"] Cons [of n1 "[c]"] e by simp
qed

lemma build_contents_Nil: "build_contents lib n [] = ([], n)"
  by (simp add: build_contents_def)

lemma build_contents_Cons:
  "build_contents lib n (u # urls) =
     (fst (extract_url lib n u) # fst (build_contents lib (snd (extract_url lib n u)) urls),
      snd (build_contents lib (snd (extract_url lib n u)) urls))"
proof -
  obtain c n1 where e: "extract_url lib n u = (c, n1)"
    by (cases "extract_url lib n u")
  show ?thesis
    using collect_contents_acc [of lib n1 urls "[c]"] e by (simp add: build_contents_def)
qed

lemma length_build_contents: "length (fst (build_contents lib n urls)) = length urls"
  by (induction urls arbitrary: n) (simp_all add: build_contents_Nil build_contents_Cons)

lemma nth_build_contents:
  "i < length urls \<Longrightarrow>
   fst (build_contents lib n urls) ! i
     = fst (extract_url lib (snd (build_contents lib n (take i urls))) (urls ! i))"
proof (induction urls arbitrary: n i)
  case Nil
  then show ?case by simp
next
  case (Cons u urls)
  show ?case
  proof (cases i)
    case 0
    then show ?thesis by (simp add: build_contents_Nil build_contents_Cons)
  next
    case (Suc j)
    then have "j < length urls" using Cons.prems by simp
    from Cons.IH [OF this] Suc show ?thesis
      by (simp add: build_contents_Cons)
  qed
qed

text \<open>
  Claim C9. The list of contents has one entry per selected URL, and the entry at each
  position is what \<open>extract\<close> returned for the URL at that position, called after the
  extractions of the URLs before it. A URL whose extraction fails, here one the
  validator rejects, has the empty string at its position. Nothing is skipped and
  nothing is deduplicated.
\<close>

theorem build_contents_positional:
  "length (fst (build_contents lib n urls)) = length urls
   \<and> (\<forall>i < length urls.
        fst (build_contents lib n urls) ! i
          = fst (extract_url lib (snd (build_contents lib n (take i urls))) (urls ! i)))
   \<and> (\<forall>i < length urls. \<not> validators_url lib (urls ! i) \<longrightarrow>
        fst (build_contents lib n urls) ! i = [])"
proof (intro conjI allI impI)
  show "length (fst (build_contents lib n urls)) = length urls"
    by (rule length_build_contents)
  show "fst (build_contents lib n urls) ! i
          = fst (extract_url lib (snd (build_contents lib n (take i urls))) (urls ! i))"
    if "i < length urls" for i
    using that by (rule nth_build_contents)
  show "fst (build_contents lib n urls) ! i = []"
    if "i < length urls" and "\<not> validators_url lib (urls ! i)" for i
    using that by (simp add: nth_build_contents extract_invalid)
qed

lemma py_strip_id:
  "s \<noteq> [] \<Longrightarrow> \<not> py_isspace (hd s) \<Longrightarrow> \<not> py_isspace (last s) \<Longrightarrow> py_strip s = s"
proof -
  assume s: "s \<noteq> []" and h: "\<not> py_isspace (hd s)" and l: "\<not> py_isspace (last s)"
  have "dropWhile py_isspace s = s"
    using s h by (cases s) simp_all
  moreover have "dropWhile py_isspace (rev s) = rev s"
    using s l by (cases "rev s") (simp_all add: last_rev [symmetric] del: last_rev)
  ultimately show ?thesis by (simp add: py_strip_def)
qed

lemma scenario_ok:
  "extract_url lib_scenario \<lparr>world = w, calls = cs\<rparr> (lit ''https://a.example/ok'')
   = (lit ''Hello world'',
      \<lparr>world = Suc (Suc w),
       calls = cs @ [FetchUrl (lit ''https://a.example/ok''),
                     HttpGet (lit ''https://a.example/ok'')]\<rparr>)"
proof -
  have "py_strip (lit ''Hello world'') = lit ''Hello world''"
    by (rule py_strip_id) (simp_all add: lit_def py_isspace_def)
  then show ?thesis
    by (simp add: extract_url_def extract_try_def extract_fallback_def lib_scenario_def
        page_raise_for_status_def lit_def)
qed

lemma scenario_dead:
  "extract_url lib_scenario \<lparr>world = w, calls = cs\<rparr> (lit ''https://b.example/dead'')
   = ([], \<lparr>world = Suc (Suc w),
            calls = cs @ [FetchUrl (lit ''https://b.example/dead''),
                          HttpGet (lit ''https://b.example/dead'')]\<rparr>)"
  by (simp add: extract_url_def extract_try_def extract_fallback_def lib_scenario_def lit_def)

lemma scenario_invalid:
  "extract_url lib_scenario n (lit ''not a url'') = ([], n)"
  by (simp add: extract_url_def lib_scenario_def lit_def)

text \<open>
  Claim C9 at the selection of the specification's scenario, extended by a duplicate
  and by a string that is not a URL.
\<close>

theorem build_contents_positional_witness:
  "fst (build_contents lib_scenario net0
      [lit ''https://a.example/ok'', lit ''https://b.example/dead'', lit ''not a url'',
       lit ''https://a.example/ok''])
   = [lit ''Hello world'', [], [], lit ''Hello world'']
   \<and> length (fst (build_contents lib_scenario net0
      [lit ''https://a.example/ok'', lit ''https://b.example/dead'', lit ''not a url'',
       lit ''https://a.example/ok''])) = 4
   \<and> fst (build_contents lib_scenario net0
      [lit ''https://a.example/ok'', lit ''https://b.example/dead'', lit ''not a url'',
       lit ''https://a.example/ok'']) ! 2 = []"
proof -
  let ?urls = "[lit ''https://a.example/ok'', lit ''https://b.example/dead'', lit ''not a url'',
       lit ''https://a.example/ok'']"
  note inst = build_contents_positional [of lib_scenario net0 ?urls]
  have v: "\<not> validators_url lib_scenario (?urls ! 2)"
    by (simp add: lib_scenario_def lit_def)
  have "fst (build_contents lib_scenario net0 ?urls)
        = [lit ''Hello world'', [], [], lit ''Hello world'']"
    by (simp add: build_contents_Cons build_contents_Nil net0_def scenario_ok scenario_dead
        scenario_invalid)
  moreover have "length (fst (build_contents lib_scenario net0 ?urls)) = 4"
    using inst by simp
  moreover have "fst (build_contents lib_scenario net0 ?urls) ! 2 = []"
    using inst [THEN conjunct2, THEN conjunct2, rule_format, of 2] v by simp
  ultimately show ?thesis by simp
qed

lemma extract_raw:
  "text \<noteq> [] \<Longrightarrow> \<not> py_isspace (hd text) \<Longrightarrow> \<not> py_isspace (last text) \<Longrightarrow>
   extract_url (lib_raw text) n (lit ''https://a.example/long'')
   = (text, \<lparr>world = Suc (world n),
              calls = calls n @ [FetchUrl (lit ''https://a.example/long'')]\<rparr>)"
  by (simp add: extract_url_def extract_try_def lib_raw_def py_strip_id lit_def)

text \<open>
  Claim C1 fails on the code: the loop hands the extractor's text to the report generator
  as it is. A page whose extracted text has 50,001 characters gives an entry of 50,001
  characters, and an extracted text with inner line breaks keeps them, although the
  normalizer would cut the first and collapse the second.
\<close>

theorem build_contents_not_normalized:
  "map length (fst (build_contents (lib_raw (replicate 50001 97)) net0
      [lit ''https://a.example/long''])) = [50001]
   \<and> fst (build_contents (lib_raw [97, 10, 10, 98]) net0 [lit ''https://a.example/long''])
       = [[97, 10, 10, 98]]
   \<and> clean_content [97, 10, 10, 98] = [97, 32, 98]
   \<and> length (clean_content (replicate 50001 97)) = 50000"
proof -
  have a: "\<not> py_isspace 97" and b: "\<not> py_isspace 98"
    by (simp_all add: py_isspace_def)
  have long: "fst (extract_url (lib_raw (replicate 50001 97)) net0 (lit ''https://a.example/long''))
      = replicate 50001 97"
    using a by (subst extract_raw) simp_all
  have short: "fst (extract_url (lib_raw [97, 10, 10, 98]) net0 (lit ''https://a.example/long''))
      = [97, 10, 10, 98]"
    using a b by (subst extract_raw) simp_all
  have split: "py_split [97, 10, 10, 98] = [[97], [98]]"
    using a b by (simp add: py_split_word py_isspace_def)
  have r: "replicate 50001 (97::nat) = 97 # replicate 50000 97"
    by (simp add: replicate_Suc [symmetric] del: replicate_Suc)
  have "py_split (replicate 50001 97) = [replicate 50001 97]"
    unfolding r using a by (intro py_split_one_word) simp_all
  then have cut: "length (clean_content (replicate 50001 97)) = 50000"
    by (simp add: clean_content_eq)
  show ?thesis
    using long short split cut
    by (simp add: build_contents_Cons build_contents_Nil clean_content_eq)
qed

section \<open>Properties of the report store\<close>

lemma length_insert_rows: "length (insert_rows now rows rs) = length rows + length rs"
  by (induction rs arbitrary: rows) simp_all

lemma save_report_ok:
  "save_report NoFault now d query content sources =
     (True, \<lparr>committed = insert_rows now (committed d)
                (pending d @ [\<lparr>rep_query = query, rep_content = content,
                                rep_sources = json_dumps sources\<rparr>]),
             pending = []\<rparr>)"
  by (simp add: save_report_def session_add_def session_commit_def)

lemma save_report_failed:
  "fault \<noteq> NoFault \<Longrightarrow>
   save_report fault now d query content sources
     = (False, \<lparr>committed = committed d, pending = []\<rparr>)"
  by (cases fault)
    (simp_all add: save_report_def session_add_def session_commit_def session_rollback_def)

text \<open>
  Claim C10. \<open>save_report\<close> returns \<open>True\<close> exactly when no call of the session raised,
  which is exactly when the table changed: the pending objects and the new report are
  then rows of the table, the new report last, with the serialized source list. When
  a call raises, the session is rolled back and the table is the one before the call.
\<close>

theorem save_report_atomic:
  "(fst (save_report fault now d query content sources) \<longleftrightarrow> fault = NoFault)
   \<and> (fst (save_report fault now d query content sources) \<longleftrightarrow>
        committed (snd (save_report fault now d query content sources)) \<noteq> committed d)
   \<and> (fault = NoFault \<longrightarrow>
        snd (save_report fault now d query content sources)
          = \<lparr>committed = insert_rows now (committed d)
                (pending d @ [\<lparr>rep_query = query, rep_content = content,
                                rep_sources = json_dumps sources\<rparr>]),
             pending = []\<rparr>)
   \<and> (fault = NoFault \<and> pending d = [] \<longrightarrow>
        committed (snd (save_report fault now d query content sources))
          = committed d @ [\<lparr>row_id = next_id (committed d), row_query = query,
                            row_content = content, row_sources = json_dumps sources,
                            row_created_at = now\<rparr>])
   \<and> (fault \<noteq> NoFault \<longrightarrow>
        snd (save_report fault now d query content sources)
          = \<lparr>committed = committed d, pending = []\<rparr>)"
proof (cases "fault = NoFault")
  case True
  have "length (insert_rows now (committed d)
          (pending d @ [\<lparr>rep_query = query, rep_content = content,
                          rep_sources = json_dumps sources\<rparr>])) \<noteq> length (committed d)"
    by (simp add: length_insert_rows)
  then have "insert_rows now (committed d)
          (pending d @ [\<lparr>rep_query = query, rep_content = content,
                          rep_sources = json_dumps sources\<rparr>]) \<noteq> committed d"
    by metis
  then show ?thesis
    using True by (auto simp: save_report_ok)
next
  case False
  then show ?thesis
    by (simp add: save_report_failed)
qed

text \<open>Claim C10 at an empty store, once with a commit that succeeds and once with one that fails.\<close>

theorem save_report_atomic_witness:
  "save_report NoFault 7 db0 (lit ''q'') (lit ''r'') [lit ''http://a'']
     = (True, \<lparr>committed = [\<lparr>row_id = 1, row_query = lit ''q'', row_content = lit ''r'',
                               row_sources = [91, 34, 104, 116, 116, 112, 58, 47, 47, 97, 34, 93], row_created_at = 7\<rparr>],
               pending = []\<rparr>)
   \<and> save_report CommitFails 7 db0 (lit ''q'') (lit ''r'') [lit ''http://a''] = (False, db0)"
proof -
  note ok = save_report_atomic [of NoFault 7 db0 "lit ''q''" "lit ''r''" "[lit ''http://a'']"]
  note ko = save_report_atomic [of CommitFails 7 db0 "lit ''q''" "lit ''r''" "[lit ''http://a'']"]
  have j: "json_dumps [lit ''http://a''] = [91, 34, 104, 116, 116, 112, 58, 47, 47, 97, 34, 93]"
    by (simp add: json_dumps_def json_dumps_str_def json_escape_char_def lit_def)
  have "save_report NoFault 7 db0 (lit ''q'') (lit ''r'') [lit ''http://a'']
     = (True, \<lparr>committed = [\<lparr>row_id = 1, row_query = lit ''q'', row_content = lit ''r'',
                               row_sources = [91, 34, 104, 116, 116, 112, 58, 47, 47, 97, 34, 93], row_created_at = 7\<rparr>],
               pending = []\<rparr>)"
    using ok j by (simp add: prod_eq_iff db0_def next_id_def)
  moreover have "save_report CommitFails 7 db0 (lit ''q'') (lit ''r'') [lit ''http://a'']
     = (False, db0)"
    using ko by (simp add: prod_eq_iff db0_def)
  ultimately show ?thesis by simp
qed

lemma dumps_surrogate:
  "json_dumps [[104, 128512]]
   = [91, 34, 104, 92, 117, 100, 56, 51, 100, 92, 117, 100, 101, 48, 48, 34, 93]"
  by (simp add: json_dumps_def json_dumps_str_def json_escape_char_def u_escape_def
      hex_digit_def Let_def)

lemma hex4_d83d: "hex4 100 56 51 100 = Some 55357"
  by (simp add: hex4_def hex_val_def)

lemma hex4_de00: "hex4 100 101 48 48 = Some 56832"
  by (simp add: hex4_def hex_val_def)

lemma eval_surrogate:
  "py_eval_str_list
     [91, 34, 104, 92, 117, 100, 56, 51, 100, 92, 117, 100, 101, 48, 48, 34, 93]
   = Some [[104, 55357, 56832]]"
  by (simp add: py_eval_str_list_def hex4_d83d hex4_de00)

text \<open>
  Claim C3 fails on the code: the stored text is read back with \<open>eval\<close>. For a source URL
  with a character outside the Basic Multilingual Plane, here U+1F600 after \<open>h\<close>,
  \<open>json.dumps\<close> stores a surrogate pair of two \<open>u\<close> escapes, and \<open>eval\<close> reads them as
  two characters: the list read back is not the list that was saved.
\<close>

theorem read_sources_not_saved_list:
  "map read_sources
     (committed (snd (save_report NoFault 0 db0 (lit ''q'') (lit ''r'') [[104, 128512]])))
   = [Some [[104, 55357, 56832]]]"
  by (simp add: save_report_ok db0_def read_sources_def dumps_surrogate eval_surrogate)

end
